theory Spec2Isabelle
  imports Complex_Main "HOL-Library.AList"
begin

section \<open>JavaScript values\<close>

text \<open>
  The cache of \<^verbatim>\<open>src/lib/utils/cache.ts\<close> stores arbitrary payloads as JSON text in the
  browser's \<^verbatim>\<open>localStorage\<close> and reads them back with unchecked property accesses,
  arithmetic and truthiness tests. The model therefore carries the JavaScript values
  those operations see. A number is a rational (every finite double is one),
  \<^verbatim>\<open>NaN\<close>, \<^verbatim>\<open>Infinity\<close> or \<^verbatim>\<open>-Infinity\<close>; the two zeros are not told apart.
\<close>

datatype number = NaN | Fin rat | PosInf | NegInf

datatype jsval =
    JUndefined
  | JNull
  | JBool bool
  | JNum number
  | JStr string
  | JArr "jsval list"
  | JObj "(string \<times> jsval) list"

text \<open>The exceptions raised inside the cache; all of them are caught there.\<close>

datatype exn = TypeError | SyntaxError | QuotaExceededError

text \<open>Sequencing of a computation that may throw.\<close>

definition seq :: "'e + 'a \<Rightarrow> ('a \<Rightarrow> 'e + 'b) \<Rightarrow> 'e + 'b" where
  "seq m f = (case m of Inl e \<Rightarrow> Inl e | Inr x \<Rightarrow> f x)"

text \<open>
  Rounding to the nearest double (IEEE 754 binary64, ties to even), which is what
  \<^verbatim>\<open>ttlMinutes * 60 * 1000\<close> applies after each multiplication. \<open>bits k\<close> is the length
  of \<open>k\<close> in binary, \<open>binade x\<close> is the exponent \<open>e\<close> with \<open>2^e \<le> x < 2^(e+1)\<close> for \<open>x > 0\<close>.
  A double has 53 significant bits, so its last bit weighs \<open>2^(e-52)\<close>, and never less
  than \<open>2^(-1074)\<close> (subnormal range); a result of \<open>2^1024\<close> or more overflows to infinity.
\<close>

function bits :: "int \<Rightarrow> nat" where
  "bits k = (if k \<le> 0 then 0 else Suc (bits (k div 2)))"
  by pat_completeness auto
termination
  by (relation "measure nat") auto

declare bits.simps [simp del]

definition pow2 :: "int \<Rightarrow> rat" where
  "pow2 i = (if 0 \<le> i then 2 ^ nat i else 1 / 2 ^ nat (- i))"

definition round_half_even :: "rat \<Rightarrow> int" where
  "round_half_even r =
     (let f = \<lfloor>r\<rfloor>; d = r - of_int f
      in if d < 1 / 2 then f else if 1 / 2 < d then f + 1 else if even f then f else f + 1)"

definition binade :: "rat \<Rightarrow> int" where
  "binade x =
     (if 1 \<le> x then int (bits \<lfloor>x\<rfloor>) - 1
      else - int (bits (\<lceil>1 / x\<rceil> - 1)))"

definition round_pos :: "rat \<Rightarrow> number" where
  "round_pos x =
     (let q = max (binade x) (- 1022) - 52;
          y = of_int (round_half_even (x / pow2 q)) * pow2 q
      in if pow2 1024 \<le> y then PosInf else Fin y)"

definition round_double :: "rat \<Rightarrow> number" where
  "round_double x =
     (if x = 0 then Fin 0
      else if 0 < x then round_pos x
      else (case round_pos (- x) of Fin y \<Rightarrow> Fin (- y) | _ \<Rightarrow> NegInf))"

text \<open>
  \<^verbatim>\<open>a * b\<close>, \<^verbatim>\<open>a - b\<close>, \<^verbatim>\<open>a > b\<close> and \<^verbatim>\<open>a <= b\<close> on numbers. The product is rounded;
  arithmetic with \<^verbatim>\<open>NaN\<close> is \<^verbatim>\<open>NaN\<close>, as are \<^verbatim>\<open>0 * Infinity\<close> and
  \<^verbatim>\<open>Infinity - Infinity\<close>; every comparison with \<^verbatim>\<open>NaN\<close> is false. The difference of two
  finite numbers is taken exactly: the cache subtracts a stored timestamp from a clock
  reading, and for the readings of \<^verbatim>\<open>Date.now()\<close>, integers below \<open>2^53\<close>, the double
  difference is the exact one.
\<close>

fun num_mul :: "number \<Rightarrow> number \<Rightarrow> number" where
  "num_mul (Fin a) (Fin b) = round_double (a * b)"
| "num_mul (Fin a) PosInf = (if a = 0 then NaN else if 0 < a then PosInf else NegInf)"
| "num_mul (Fin a) NegInf = (if a = 0 then NaN else if 0 < a then NegInf else PosInf)"
| "num_mul PosInf (Fin b) = (if b = 0 then NaN else if 0 < b then PosInf else NegInf)"
| "num_mul NegInf (Fin b) = (if b = 0 then NaN else if 0 < b then NegInf else PosInf)"
| "num_mul PosInf PosInf = PosInf"
| "num_mul PosInf NegInf = NegInf"
| "num_mul NegInf PosInf = NegInf"
| "num_mul NegInf NegInf = PosInf"
| "num_mul _ _ = NaN"

fun num_sub :: "number \<Rightarrow> number \<Rightarrow> number" where
  "num_sub (Fin a) (Fin b) = Fin (a - b)"
| "num_sub (Fin a) PosInf = NegInf"
| "num_sub (Fin a) NegInf = PosInf"
| "num_sub PosInf (Fin b) = PosInf"
| "num_sub PosInf NegInf = PosInf"
| "num_sub NegInf (Fin b) = NegInf"
| "num_sub NegInf PosInf = NegInf"
| "num_sub _ _ = NaN"

fun num_gt :: "number \<Rightarrow> number \<Rightarrow> bool" where
  "num_gt (Fin a) (Fin b) = (a > b)"
| "num_gt PosInf (Fin b) = True"
| "num_gt PosInf NegInf = True"
| "num_gt (Fin a) NegInf = True"
| "num_gt _ _ = False"

fun num_le :: "number \<Rightarrow> number \<Rightarrow> bool" where
  "num_le (Fin a) (Fin b) = (a \<le> b)"
| "num_le (Fin a) PosInf = True"
| "num_le NegInf (Fin b) = True"
| "num_le NegInf PosInf = True"
| "num_le PosInf PosInf = True"
| "num_le NegInf NegInf = True"
| "num_le _ _ = False"

text \<open>
  \<^verbatim>\<open>item.name\<close>: reading a property of \<^verbatim>\<open>null\<close> or \<^verbatim>\<open>undefined\<close> throws a TypeError;
  an object yields the property's value, or \<^verbatim>\<open>undefined\<close> when it has none. The
  cache reads only \<^verbatim>\<open>data\<close>, \<^verbatim>\<open>timestamp\<close> and \<^verbatim>\<open>ttl\<close>, which no boolean, number, string
  or array has.
\<close>

fun get_prop :: "jsval \<Rightarrow> string \<Rightarrow> exn + jsval" where
  "get_prop JUndefined name = Inl TypeError"
| "get_prop JNull name = Inl TypeError"
| "get_prop (JObj fs) name = (case map_of fs name of None \<Rightarrow> Inr JUndefined | Some v \<Rightarrow> Inr v)"
| "get_prop _ name = Inr JUndefined"

text \<open>
  The numeric coercion applied by \<^verbatim>\<open>-\<close>, \<^verbatim>\<open>>\<close> and \<^verbatim>\<open><=\<close>. On strings, arrays and
  objects it is the runtime's string parsing and \<^verbatim>\<open>ToPrimitive\<close>, which may itself throw;
  that part is the parameter \<open>cv\<close>, and every result below holds for any \<open>cv\<close>.
\<close>

fun ToNumber :: "(jsval \<Rightarrow> exn + number) \<Rightarrow> jsval \<Rightarrow> exn + number" where
  "ToNumber cv JUndefined = Inr NaN"
| "ToNumber cv JNull = Inr (Fin 0)"
| "ToNumber cv (JBool b) = Inr (Fin (if b then 1 else 0))"
| "ToNumber cv (JNum n) = Inr n"
| "ToNumber cv v = cv v"

text \<open>Truthiness, as tested by \<^verbatim>\<open>if (cached)\<close>.\<close>

fun ToBoolean :: "jsval \<Rightarrow> bool" where
  "ToBoolean JUndefined = False"
| "ToBoolean JNull = False"
| "ToBoolean (JBool b) = b"
| "ToBoolean (JNum NaN) = False"
| "ToBoolean (JNum (Fin r)) = (r \<noteq> 0)"
| "ToBoolean (JNum PosInf) = True"
| "ToBoolean (JNum NegInf) = True"
| "ToBoolean (JStr s) = (s \<noteq> [])"
| "ToBoolean (JArr xs) = True"
| "ToBoolean (JObj fs) = True"

text \<open>
  \<^verbatim>\<open>JSON.parse(JSON.stringify(v))\<close> for a value \<open>v\<close> other than \<^verbatim>\<open>undefined\<close>: \<^verbatim>\<open>NaN\<close>
  and the infinities are written as \<^verbatim>\<open>null\<close>, an \<^verbatim>\<open>undefined\<close> array element as
  \<^verbatim>\<open>null\<close>, and a property whose value is \<^verbatim>\<open>undefined\<close> is left out.
\<close>

fun json_roundtrip :: "jsval \<Rightarrow> jsval" where
  "json_roundtrip (JNum NaN) = JNull"
| "json_roundtrip (JNum PosInf) = JNull"
| "json_roundtrip (JNum NegInf) = JNull"
| "json_roundtrip (JArr xs) =
     JArr (map (\<lambda>x. if x = JUndefined then JNull else json_roundtrip x) xs)"
| "json_roundtrip (JObj fs) =
     JObj (map (\<lambda>kv. (fst kv, json_roundtrip (snd kv))) (filter (\<lambda>kv. snd kv \<noteq> JUndefined) fs))"
| "json_roundtrip v = v"

text \<open>
  A JSON-serializable value: no \<^verbatim>\<open>undefined\<close>, no \<^verbatim>\<open>NaN\<close> and no infinity anywhere
  in it.
\<close>

fun json_serializable :: "jsval \<Rightarrow> bool" where
  "json_serializable JUndefined = False"
| "json_serializable (JNum NaN) = False"
| "json_serializable (JNum PosInf) = False"
| "json_serializable (JNum NegInf) = False"
| "json_serializable (JArr xs) = list_all json_serializable xs"
| "json_serializable (JObj fs) = list_all (\<lambda>kv. json_serializable (snd kv)) fs"
| "json_serializable v = True"

section \<open>The browser's localStorage\<close>

text \<open>
  \<^verbatim>\<open>localStorage\<close> maps string keys to strings and enumerates its keys by index. The
  cache only ever tests a stored string for emptiness and hands it to \<^verbatim>\<open>JSON.parse\<close>,
  so a stored string is represented by what those two operations make of it: the empty
  string, a non-empty string that \<^verbatim>\<open>JSON.parse\<close> rejects, or the JSON text of a value.
  Other code of the page shares the same storage and may have put any string under any
  key. \<^verbatim>\<open>setItem\<close> throws when the browser refuses the write (quota exceeded, private
  mode); which writes are refused is the storage's own policy \<open>accepts\<close>.
\<close>

datatype stored = EmptyString | NotJson | JsonText jsval

record storage =
  items :: "(string \<times> stored) list"
  accepts :: "(string \<times> stored) list \<Rightarrow> string \<Rightarrow> stored \<Rightarrow> bool"

definition ls_length :: "storage \<Rightarrow> nat" where
  "ls_length st = length (items st)"

definition ls_key :: "storage \<Rightarrow> nat \<Rightarrow> string option" where
  "ls_key st i = (if i < length (items st) then Some (fst (items st ! i)) else None)"

definition getItem :: "storage \<Rightarrow> string \<Rightarrow> stored option" where
  "getItem st k = map_of (items st) k"

definition setItem :: "storage \<Rightarrow> string \<Rightarrow> stored \<Rightarrow> exn + storage" where
  "setItem st k v =
     (if accepts st (items st) k v then Inr (st\<lparr>items := AList.update k v (items st)\<rparr>)
      else Inl QuotaExceededError)"

definition removeItem :: "storage \<Rightarrow> string \<Rightarrow> storage" where
  "removeItem st k = st\<lparr>items := AList.delete k (items st)\<rparr>"

fun JSON_parse :: "stored \<Rightarrow> exn + jsval" where
  "JSON_parse EmptyString = Inl SyntaxError"
| "JSON_parse NotJson = Inl SyntaxError"
| "JSON_parse (JsonText v) = Inr v"

definition JSON_stringify :: "jsval \<Rightarrow> stored" where
  "JSON_stringify v = JsonText (json_roundtrip v)"

definition startsWith :: "string \<Rightarrow> string \<Rightarrow> bool" where
  "startsWith s p = (take (length p) s = p)"

section \<open>LocalCache\<close>

text \<open>
  The static methods of \<^verbatim>\<open>LocalCache\<close>. The storage is passed in and returned, the
  reading of \<^verbatim>\<open>Date.now()\<close> (epoch milliseconds) is an argument (one reading for a whole
  call of \<^verbatim>\<open>getStats\<close>), and console output is left out, except the number
  \<^verbatim>\<open>clearAll\<close> logs.
\<close>

definition PREFIX :: string where
  "PREFIX = ''sm_cache_''"

definition ttl_millis :: "number \<Rightarrow> number" where
  "ttl_millis ttlMinutes = num_mul (num_mul ttlMinutes (Fin 60)) (Fin 1000)"

definition set_body :: "storage \<Rightarrow> int \<Rightarrow> string \<Rightarrow> jsval \<Rightarrow> number \<Rightarrow> exn + storage" where
  "set_body st now key data ttlMinutes =
     (let item = JObj [(''data'', data),
                       (''timestamp'', JNum (Fin (of_int now))),
                       (''ttl'', JNum (ttl_millis ttlMinutes))]
      in setItem st (PREFIX @ key) (JSON_stringify item))"

text \<open>
  The ttl a reader finds in an entry that \<^verbatim>\<open>set\<close> stored with \<open>ttlMinutes\<close>: the rounded
  product, or 0 when the product is not finite, since that is stored as \<^verbatim>\<open>null\<close> and
  \<^verbatim>\<open>null\<close> counts as 0 in the comparison with the age.
\<close>

definition ttl_read_back :: "number \<Rightarrow> rat" where
  "ttl_read_back ttlMinutes = (case ttl_millis ttlMinutes of Fin y \<Rightarrow> y | _ \<Rightarrow> 0)"

definition LocalCache_set :: "storage \<Rightarrow> int \<Rightarrow> string \<Rightarrow> jsval \<Rightarrow> number \<Rightarrow> storage" where
  "LocalCache_set st now key data ttlMinutes =
     (case set_body st now key data ttlMinutes of Inr st' \<Rightarrow> st' | Inl e \<Rightarrow> st)"

definition get_body ::
  "(jsval \<Rightarrow> exn + number) \<Rightarrow> storage \<Rightarrow> int \<Rightarrow> string \<Rightarrow> exn + (jsval \<times> storage)" where
  "get_body cv st now key =
     (case getItem st (PREFIX @ key) of
        None \<Rightarrow> Inr (JNull, st)
      | Some stored \<Rightarrow>
          if stored = EmptyString then Inr (JNull, st)
          else
            seq (JSON_parse stored) (\<lambda>item.
            seq (get_prop item ''timestamp'') (\<lambda>ts.
            seq (ToNumber cv ts) (\<lambda>tsn.
            let age = num_sub (Fin (of_int now)) tsn in
            seq (get_prop item ''ttl'') (\<lambda>ttl.
            seq (ToNumber cv ttl) (\<lambda>ttln.
            if num_gt age ttln then Inr (JNull, removeItem st (PREFIX @ key))
            else seq (get_prop item ''data'') (\<lambda>d. Inr (d, st))))))))"

definition LocalCache_get ::
  "(jsval \<Rightarrow> exn + number) \<Rightarrow> storage \<Rightarrow> int \<Rightarrow> string \<Rightarrow> jsval \<times> storage" where
  "LocalCache_get cv st now key =
     (case get_body cv st now key of Inr r \<Rightarrow> r | Inl e \<Rightarrow> (JNull, st))"

definition LocalCache_isValid ::
  "(jsval \<Rightarrow> exn + number) \<Rightarrow> storage \<Rightarrow> int \<Rightarrow> string \<Rightarrow> bool \<times> storage" where
  "LocalCache_isValid cv st now key =
     (case LocalCache_get cv st now key of (v, st') \<Rightarrow> (v \<noteq> JNull, st'))"

definition LocalCache_remove :: "storage \<Rightarrow> string \<Rightarrow> storage" where
  "LocalCache_remove st key = removeItem st (PREFIX @ key)"

function clearAll_loop :: "storage \<Rightarrow> nat \<Rightarrow> string list \<Rightarrow> string list" where
  "clearAll_loop st i keysToRemove =
     (if i < ls_length st then
        clearAll_loop st (i + 1)
          (case ls_key st i of
             None \<Rightarrow> keysToRemove
           | Some key \<Rightarrow> if startsWith key PREFIX then keysToRemove @ [key] else keysToRemove)
      else keysToRemove)"
  by pat_completeness auto
termination
  by (relation "measure (\<lambda>(st, i, ks). ls_length st - i)") auto

declare clearAll_loop.simps [simp del]

definition LocalCache_clearAll :: "storage \<Rightarrow> storage \<times> nat" where
  "LocalCache_clearAll st =
     (let keysToRemove = clearAll_loop st 0 []
      in (fold (\<lambda>key s. removeItem s key) keysToRemove st, length keysToRemove))"

record stats =
  total :: nat
  valid :: nat
  expired :: nat

text \<open>The test \<^verbatim>\<open>Date.now() - item.timestamp <= item.ttl\<close> on a parsed record.\<close>

definition still_valid :: "(jsval \<Rightarrow> exn + number) \<Rightarrow> int \<Rightarrow> stored \<Rightarrow> exn + bool" where
  "still_valid cv now stored =
     seq (JSON_parse stored) (\<lambda>item.
     seq (get_prop item ''timestamp'') (\<lambda>ts.
     seq (ToNumber cv ts) (\<lambda>tsn.
     seq (get_prop item ''ttl'') (\<lambda>ttl.
     seq (ToNumber cv ttl) (\<lambda>ttln.
     Inr (num_le (num_sub (Fin (of_int now)) tsn) ttln))))))"

definition count_key ::
  "(jsval \<Rightarrow> exn + number) \<Rightarrow> storage \<Rightarrow> int \<Rightarrow> string \<Rightarrow> stats \<Rightarrow> stats" where
  "count_key cv st now key s =
     (if startsWith key PREFIX then
        (let s1 = s\<lparr>total := total s + 1\<rparr> in
         case getItem st key of
           None \<Rightarrow> s1
         | Some stored \<Rightarrow>
             if stored = EmptyString then s1
             else (case still_valid cv now stored of
                     Inr ok \<Rightarrow> if ok then s1\<lparr>valid := valid s1 + 1\<rparr>
                               else s1\<lparr>expired := expired s1 + 1\<rparr>
                   | Inl e \<Rightarrow> s1\<lparr>expired := expired s1 + 1\<rparr>))
      else s)"

function getStats_loop ::
  "(jsval \<Rightarrow> exn + number) \<Rightarrow> storage \<Rightarrow> int \<Rightarrow> nat \<Rightarrow> stats \<Rightarrow> stats" where
  "getStats_loop cv st now i s =
     (if i < ls_length st then
        getStats_loop cv st now (i + 1)
          (case ls_key st i of None \<Rightarrow> s | Some key \<Rightarrow> count_key cv st now key s)
      else s)"
  by pat_completeness auto
termination
  by (relation "measure (\<lambda>(cv, st, now, i, s). ls_length st - i)") auto

declare getStats_loop.simps [simp del]

definition LocalCache_getStats :: "(jsval \<Rightarrow> exn + number) \<Rightarrow> storage \<Rightarrow> int \<Rightarrow> stats" where
  "LocalCache_getStats cv st now =
     getStats_loop cv st now 0 \<lparr>total = 0, valid = 0, expired = 0\<rparr>"

section \<open>The cache-aside wrapper\<close>

text \<open>
  \<^verbatim>\<open>fetchWithCache(cacheKey, fetchFn, ttlMinutes = 60, forceRefresh = false)\<close>. The producer
  \<open>fetchFn\<close> is a step on a state \<open>p\<close> of its own (the outside world it talks to), and
  either throws an error of any type \<open>'e\<close> or returns a value; it does not touch the
  storage. \<open>t_get\<close> is the clock read by the lookup, \<open>t_set\<close> the clock read by the store
  after the producer has answered. An absent optional argument is \<open>None\<close>.
\<close>

definition fetch_and_store ::
  "storage \<Rightarrow> int \<Rightarrow> ('p \<Rightarrow> ('e + jsval) \<times> 'p) \<Rightarrow> 'p \<Rightarrow> string \<Rightarrow> number
     \<Rightarrow> ('e + jsval) \<times> storage \<times> 'p" where
  "fetch_and_store st t_set fetchFn p cacheKey ttlMinutes =
     (case fetchFn p of
        (Inl e, p') \<Rightarrow> (Inl e, st, p')
      | (Inr data, p') \<Rightarrow> (Inr data, LocalCache_set st t_set cacheKey data ttlMinutes, p'))"

definition fetchWithCache ::
  "(jsval \<Rightarrow> exn + number) \<Rightarrow> storage \<Rightarrow> int \<Rightarrow> int \<Rightarrow> ('p \<Rightarrow> ('e + jsval) \<times> 'p) \<Rightarrow> 'p
     \<Rightarrow> string \<Rightarrow> number option \<Rightarrow> bool option \<Rightarrow> ('e + jsval) \<times> storage \<times> 'p" where
  "fetchWithCache cv st t_get t_set fetchFn p cacheKey ttlMinutes_arg forceRefresh_arg =
     (let ttlMinutes = (case ttlMinutes_arg of None \<Rightarrow> Fin 60 | Some m \<Rightarrow> m);
          forceRefresh = (case forceRefresh_arg of None \<Rightarrow> False | Some b \<Rightarrow> b)
      in if forceRefresh then fetch_and_store st t_set fetchFn p cacheKey ttlMinutes
         else (case LocalCache_get cv st t_get cacheKey of
                 (cached, st1) \<Rightarrow>
                   if ToBoolean cached then (Inr cached, st1, p)
                   else fetch_and_store st1 t_set fetchFn p cacheKey ttlMinutes))"

section \<open>The daily key of the yield-curve fetcher\<close>

text \<open>
  \<^verbatim>\<open>fetchYieldCurve\<close> of \<^verbatim>\<open>src/lib/api/treasury.ts\<close> computes its cache key from
  \<^verbatim>\<open>new Date().toISOString()\<close>, the UTC time as \<^verbatim>\<open>YYYY-MM-DDTHH:mm:ss.sssZ\<close>, which is the
  argument \<open>isoNow\<close>: \<^verbatim>\<open>today = isoNow.split('T')[0]\<close> is the text before the first \<^verbatim>\<open>T\<close>.
\<close>

definition TREASURY_YIELDS_key :: string where
  "TREASURY_YIELDS_key = ''treasury_yields_daily''"

definition today_of :: "string \<Rightarrow> string" where
  "today_of isoNow = takeWhile (\<lambda>c. c \<noteq> CHR ''T'') isoNow"

definition dailyKey :: "string \<Rightarrow> string" where
  "dailyKey isoNow = TREASURY_YIELDS_key @ ''_'' @ today_of isoNow"

section \<open>What getStats counts\<close>

text \<open>
  The three ways \<^verbatim>\<open>getStats\<close> treats a key that carries the prefix: counted as valid,
  counted as expired, or counted in the total only (its stored string is empty).
  \<open>tally\<close> adds the counts over a list of keys to running totals.
\<close>

definition counts_valid :: "(jsval \<Rightarrow> exn + number) \<Rightarrow> storage \<Rightarrow> int \<Rightarrow> string \<Rightarrow> bool" where
  "counts_valid cv st now key =
     (startsWith key PREFIX \<and>
      (case getItem st key of None \<Rightarrow> False
       | Some stored \<Rightarrow> stored \<noteq> EmptyString \<and> still_valid cv now stored = Inr True))"

definition counts_expired :: "(jsval \<Rightarrow> exn + number) \<Rightarrow> storage \<Rightarrow> int \<Rightarrow> string \<Rightarrow> bool" where
  "counts_expired cv st now key =
     (startsWith key PREFIX \<and>
      (case getItem st key of None \<Rightarrow> False
       | Some stored \<Rightarrow> stored \<noteq> EmptyString \<and> still_valid cv now stored \<noteq> Inr True))"

definition counts_neither :: "storage \<Rightarrow> string \<Rightarrow> bool" where
  "counts_neither st key =
     (startsWith key PREFIX \<and>
      (case getItem st key of None \<Rightarrow> True | Some stored \<Rightarrow> stored = EmptyString))"

definition tally :: "(jsval \<Rightarrow> exn + number) \<Rightarrow> storage \<Rightarrow> int \<Rightarrow> string list \<Rightarrow> stats \<Rightarrow> stats" where
  "tally cv st now ks s =
     \<lparr>total = total s + length (filter (\<lambda>k. startsWith k PREFIX) ks),
      valid = valid s + length (filter (counts_valid cv st now) ks),
      expired = expired s + length (filter (counts_expired cv st now) ks)\<rparr>"


section \<open>Example inputs\<close>

text \<open>
  A coercion that makes every string, array and object \<^verbatim>\<open>NaN\<close>; an empty storage that
  accepts every write and one that refuses every write; and a producer that plays a
  script of outcomes and counts its invocations.
\<close>

definition coerce_NaN :: "jsval \<Rightarrow> exn + number" where
  "coerce_NaN v = Inr NaN"

definition roomy :: storage where
  "roomy = \<lparr>items = [], accepts = (\<lambda>its k v. True)\<rparr>"

definition full :: storage where
  "full = \<lparr>items = [], accepts = (\<lambda>its k v. False)\<rparr>"

definition scripted ::
  "(string + jsval) list \<times> nat \<Rightarrow> (string + jsval) \<times> ((string + jsval) list \<times> nat)" where
  "scripted p =
     (case fst p of
        [] \<Rightarrow> (Inl ''script exhausted'', ([], snd p + 1))
      | r # rs \<Rightarrow> (r, (rs, snd p + 1)))"


section \<open>Rounding\<close>

lemma floor_numeral_div [simp]:
  "\<lfloor>numeral a / numeral b :: rat\<rfloor> = numeral a div numeral b"
  using floor_divide_of_int_eq [of "numeral a" "numeral b", where ?'a = rat] by simp

lemma ceiling_numeral_div [simp]:
  "\<lceil>numeral a / numeral b :: rat\<rceil> = - (- numeral a div numeral b)"
proof -
  have "\<lceil>numeral a / numeral b :: rat\<rceil> = - \<lfloor>of_int (- numeral a) / of_int (numeral b) :: rat\<rfloor>"
    unfolding ceiling_def by simp
  also have "\<dots> = - (- numeral a div numeral b)"
    by (simp only: floor_divide_of_int_eq)
  finally show ?thesis .
qed

lemmas round_eval =
  round_double_def round_pos_def binade_def bits.simps pow2_def round_half_even_def Let_def

lemma pow2_pos: "0 < pow2 i"
  by (simp add: pow2_def)

lemma round_half_even_nonneg: "0 \<le> r \<Longrightarrow> 0 \<le> round_half_even r"
proof -
  assume "0 \<le> r"
  then have "0 \<le> \<lfloor>r\<rfloor>" by simp
  then show ?thesis by (simp add: round_half_even_def Let_def)
qed

lemma round_pos_nonneg: "0 < x \<Longrightarrow> round_pos x = PosInf \<or> (\<exists>y\<ge>0. round_pos x = Fin y)"
proof -
  assume x: "0 < x"
  define q where "q = max (binade x) (- 1022) - 52"
  from x have "0 \<le> x / pow2 q" using pow2_pos [of q] by simp
  then have "0 \<le> round_half_even (x / pow2 q)" by (rule round_half_even_nonneg)
  then have "0 \<le> of_int (round_half_even (x / pow2 q)) * pow2 q"
    using pow2_pos [of q] by simp
  then show ?thesis by (simp add: round_pos_def Let_def q_def)
qed

lemma round_double_nonneg:
  "0 \<le> x \<Longrightarrow> round_double x = PosInf \<or> (\<exists>y\<ge>0. round_double x = Fin y)"
  using round_pos_nonneg [of x] by (auto simp: round_double_def)

lemma ttl_read_back_nonneg: "0 \<le> m \<Longrightarrow> 0 \<le> ttl_read_back (Fin m)"
proof -
  assume m: "0 \<le> m"
  then have "0 \<le> m * 60" by simp
  then consider "round_double (m * 60) = PosInf" | y where "0 \<le> y" "round_double (m * 60) = Fin y"
    using round_double_nonneg by blast
  then show ?thesis
  proof cases
    case 1
    then show ?thesis by (simp add: ttl_read_back_def ttl_millis_def)
  next
    case 2
    then have "0 \<le> y * 1000" by simp
    then have "round_double (y * 1000) = PosInf \<or> (\<exists>z\<ge>0. round_double (y * 1000) = Fin z)"
      by (rule round_double_nonneg)
    with 2 show ?thesis by (auto simp: ttl_read_back_def ttl_millis_def)
  qed
qed

lemma ToNumber_stored_ttl:
  "ToNumber cv (json_roundtrip (JNum (ttl_millis tm))) = Inr (Fin (ttl_read_back tm))"
  by (cases "ttl_millis tm") (simp_all add: ttl_read_back_def)

section \<open>Storage and JSON lemmas\<close>

lemma json_roundtrip_id: "json_serializable v \<Longrightarrow> json_roundtrip v = v"
proof (induction v rule: json_roundtrip.induct)
  case (4 xs)
  have "x \<noteq> JUndefined \<and> json_roundtrip x = x" if "x \<in> set xs" for x
  proof -
    from that "4.prems" have s: "json_serializable x" by (simp add: list_all_iff)
    then have "x \<noteq> JUndefined" by auto
    with that s "4.IH" show ?thesis by simp
  qed
  then show ?case by (simp add: map_idI)
next
  case (5 fs)
  have "snd kv \<noteq> JUndefined \<and> json_roundtrip (snd kv) = snd kv" if "kv \<in> set fs" for kv
  proof -
    from that "5.prems" have s: "json_serializable (snd kv)" by (simp add: list_all_iff)
    then have "snd kv \<noteq> JUndefined" by auto
    with that s "5.IH" show ?thesis by simp
  qed
  then show ?case by (simp add: map_idI filter_id_conv)
qed simp_all

lemma getItem_setItem:
  "setItem st k v = Inr st' \<Longrightarrow> getItem st' k' = (if k' = k then Some v else getItem st k')"
  by (auto simp: setItem_def getItem_def update_conv' split: if_splits)

lemma getItem_removeItem:
  "getItem (removeItem st k) k' = (if k' = k then None else getItem st k')"
  by (simp add: removeItem_def getItem_def delete_conv')

lemma get_entry:
  assumes "getItem st (PREFIX @ k) = Some (JsonText item)"
    and "get_prop item ''timestamp'' = Inr (JNum (Fin storedAt))"
    and "get_prop item ''ttl'' = Inr tv"
    and "ToNumber cv tv = Inr (Fin ttl)"
    and "get_prop item ''data'' = Inr d"
  shows "LocalCache_get cv st now k =
           (if of_int now - storedAt \<le> ttl then (d, st) else (JNull, removeItem st (PREFIX @ k)))"
  using assms by (simp add: LocalCache_get_def get_body_def seq_def not_le)

lemma get_unchanged_or_removed:
  "snd (LocalCache_get cv st now k) = st \<or>
   (fst (LocalCache_get cv st now k) = JNull \<and> snd (LocalCache_get cv st now k) = removeItem st (PREFIX @ k))"
  by (simp add: LocalCache_get_def get_body_def seq_def Let_def split: option.split sum.split)

lemma get_value_unchanged:
  "fst (LocalCache_get cv st now k) \<noteq> JNull \<Longrightarrow> snd (LocalCache_get cv st now k) = st"
  using get_unchanged_or_removed [of cv st now k] by auto

lemma get_depends_on_item:
  "getItem st1 (PREFIX @ k) = getItem st2 (PREFIX @ k) \<Longrightarrow>
   fst (LocalCache_get cv st1 now k) = fst (LocalCache_get cv st2 now k)"
  by (simp add: LocalCache_get_def get_body_def seq_def Let_def split: option.split sum.split)

lemma set_body_stored:
  assumes "json_serializable v" and "set_body st now k v tm = Inr st'"
  shows "getItem st' (PREFIX @ k) =
           Some (JsonText (JObj [(''data'', v), (''timestamp'', JNum (Fin (of_int now))),
                                 (''ttl'', json_roundtrip (JNum (ttl_millis tm)))]))"
proof -
  from assms(1) have "v \<noteq> JUndefined" by auto
  with assms show ?thesis
    by (simp add: set_body_def Let_def JSON_stringify_def json_roundtrip_id getItem_setItem)
qed


section \<open>The loops of clearAll and getStats\<close>

lemma clearAll_loop_filter:
  "clearAll_loop st i acc =
     acc @ filter (\<lambda>k. startsWith k PREFIX) (drop i (map fst (items st)))"
proof (induction st i acc rule: clearAll_loop.induct)
  case (1 st i ks)
  show ?case
  proof (cases "i < length (items st)")
    case True
    then have d: "drop i (map fst (items st)) = fst (items st ! i) # drop (Suc i) (map fst (items st))"
      by (simp add: Cons_nth_drop_Suc [symmetric])
    from True have "clearAll_loop st i ks =
        clearAll_loop st (i + 1)
          (if startsWith (fst (items st ! i)) PREFIX then ks @ [fst (items st ! i)] else ks)"
      by (subst clearAll_loop.simps) (simp add: ls_length_def ls_key_def)
    also have "\<dots> = (if startsWith (fst (items st ! i)) PREFIX then ks @ [fst (items st ! i)] else ks)
        @ filter (\<lambda>k. startsWith k PREFIX) (drop (Suc i) (map fst (items st)))"
      using True "1.IH" by (simp add: ls_length_def ls_key_def)
    finally show ?thesis by (simp add: d)
  next
    case False
    then show ?thesis by (subst clearAll_loop.simps) (simp add: ls_length_def)
  qed
qed

lemma filter_delete:
  "filter P (AList.delete k xs) = filter (\<lambda>kv. fst kv \<noteq> k \<and> P kv) xs"
  by (induction xs) auto

lemma fold_removeItem:
  "fold (\<lambda>key s. removeItem s key) ks st =
     st\<lparr>items := filter (\<lambda>kv. fst kv \<notin> set ks) (items st)\<rparr>"
proof (induction ks arbitrary: st)
  case Nil
  then show ?case by simp
next
  case (Cons k ks)
  have "fold (\<lambda>key s. removeItem s key) (k # ks) st =
        fold (\<lambda>key s. removeItem s key) ks (removeItem st k)"
    by simp
  also have "\<dots> = (removeItem st k)\<lparr>items := filter (\<lambda>kv. fst kv \<notin> set ks) (items (removeItem st k))\<rparr>"
    by (rule Cons.IH)
  also have "\<dots> = st\<lparr>items := filter (\<lambda>kv. fst kv \<notin> set (k # ks)) (items st)\<rparr>"
    by (simp add: removeItem_def filter_delete)
  finally show ?case .
qed

lemma clearAll_eq:
  "LocalCache_clearAll st =
     (st\<lparr>items := filter (\<lambda>kv. \<not> startsWith (fst kv) PREFIX) (items st)\<rparr>,
      length (filter (\<lambda>kv. startsWith (fst kv) PREFIX) (items st)))"
proof -
  have ks: "clearAll_loop st 0 [] = filter (\<lambda>k. startsWith k PREFIX) (map fst (items st))"
    by (simp add: clearAll_loop_filter)
  have "filter (\<lambda>kv. fst kv \<notin> set (clearAll_loop st 0 [])) (items st) =
        filter (\<lambda>kv. \<not> startsWith (fst kv) PREFIX) (items st)"
    unfolding ks by (rule filter_cong) auto
  moreover have "length (clearAll_loop st 0 []) =
        length (filter (\<lambda>kv. startsWith (fst kv) PREFIX) (items st))"
    unfolding ks by (simp add: filter_map comp_def)
  ultimately show ?thesis
    by (simp add: LocalCache_clearAll_def Let_def fold_removeItem)
qed

lemma count_key_tally: "count_key cv st now key s = tally cv st now [key] s"
  by (cases "still_valid cv now (the (getItem st key))")
     (auto simp: count_key_def tally_def counts_valid_def counts_expired_def Let_def
        split: option.split)

lemma tally_Cons: "tally cv st now ks (tally cv st now [k] s) = tally cv st now (k # ks) s"
  by (simp add: tally_def)

lemma getStats_loop_tally:
  "getStats_loop cv st now i s = tally cv st now (drop i (map fst (items st))) s"
proof (induction cv st now i s rule: getStats_loop.induct)
  case (1 cv st now i s)
  show ?case
  proof (cases "i < length (items st)")
    case True
    then have d: "drop i (map fst (items st)) = fst (items st ! i) # drop (Suc i) (map fst (items st))"
      by (simp add: Cons_nth_drop_Suc [symmetric])
    from True have "getStats_loop cv st now i s =
        getStats_loop cv st now (i + 1) (count_key cv st now (fst (items st ! i)) s)"
      by (subst getStats_loop.simps) (simp add: ls_length_def ls_key_def)
    also have "\<dots> = tally cv st now (drop (Suc i) (map fst (items st)))
                      (count_key cv st now (fst (items st ! i)) s)"
      using True "1.IH" by (simp add: ls_length_def ls_key_def)
    finally show ?thesis by (simp add: d count_key_tally tally_Cons)
  next
    case False
    then show ?thesis by (subst getStats_loop.simps) (simp add: ls_length_def tally_def)
  qed
qed

lemma getStats_tally:
  "LocalCache_getStats cv st now =
     \<lparr>total = length (filter (\<lambda>k. startsWith k PREFIX) (map fst (items st))),
      valid = length (filter (counts_valid cv st now) (map fst (items st))),
      expired = length (filter (counts_expired cv st now) (map fst (items st)))\<rparr>"
  by (simp add: LocalCache_getStats_def getStats_loop_tally tally_def)

lemma partition3:
  "length (filter (\<lambda>k. startsWith k PREFIX) ks) =
     length (filter (counts_valid cv st now) ks) + length (filter (counts_expired cv st now) ks)
       + length (filter (counts_neither st) ks)"
  by (induction ks) (auto simp: counts_valid_def counts_expired_def counts_neither_def split: option.splits)

lemma filter_absent: "K \<notin> set xs \<Longrightarrow> filter (\<lambda>x. x \<noteq> K \<and> Q x) xs = filter Q xs"
  by (rule filter_cong) auto

lemma length_filter_remove1:
  "distinct xs \<Longrightarrow> K \<in> set xs \<Longrightarrow>
     length (filter Q xs) = length (filter Q (filter (\<lambda>x. x \<noteq> K) xs)) + (if Q K then 1 else 0)"
  by (induction xs) (auto simp: filter_absent)

section \<open>Evaluation and lookups\<close>

lemmas eval_defs =
  fetchWithCache_def fetch_and_store_def LocalCache_get_def get_body_def seq_def getItem_def
  LocalCache_set_def set_body_def setItem_def removeItem_def JSON_stringify_def PREFIX_def
  ttl_millis_def round_eval

lemma get_removed_was_expired:
  "snd (LocalCache_get cv st now k) = st \<or>
   (fst (LocalCache_get cv st now k) = JNull \<and>
    snd (LocalCache_get cv st now k) = removeItem st (PREFIX @ k) \<and>
    (\<exists>stored. getItem st (PREFIX @ k) = Some stored \<and> still_valid cv now stored = Inr False))"
proof (cases "getItem st (PREFIX @ k)")
  case None
  then show ?thesis by (simp add: LocalCache_get_def get_body_def)
next
  case (Some stored)
  have gt: "num_gt a b \<Longrightarrow> \<not> num_le a b" for a b
    by (cases a; cases b) auto
  show ?thesis
    using Some
    by (auto simp: LocalCache_get_def get_body_def still_valid_def seq_def Let_def gt
          split: sum.split)
qed

section \<open>Keys, prefixes and removal\<close>

lemma startsWith_PREFIX [simp]: "startsWith (PREFIX @ k) PREFIX"
  by (simp add: startsWith_def)

lemma map_of_filter_key:
  "map_of (filter (\<lambda>kv. Q (fst kv)) xs) k = (if Q k then map_of xs k else None)"
  by (induction xs) auto

lemma keys_delete: "map fst (AList.delete K xs) = filter (\<lambda>k. k \<noteq> K) (map fst xs)"
  by (induction xs) auto

lemma keys_removeItem:
  "map fst (items (removeItem st K)) = filter (\<lambda>k. k \<noteq> K) (map fst (items st))"
  by (simp add: removeItem_def keys_delete)

lemma today_of_iso: "CHR ''T'' \<notin> set day \<Longrightarrow> today_of (day @ CHR ''T'' # time) = day"
  unfolding today_of_def by (induction day) auto

lemma getItem_set_other:
  "k' \<noteq> PREFIX @ k \<Longrightarrow> getItem (LocalCache_set st now k v ttl) k' = getItem st k'"
  by (auto simp: LocalCache_set_def set_body_def Let_def getItem_setItem split: sum.split)

lemma counts_removeItem:
  "k \<noteq> K \<Longrightarrow> counts_valid cv (removeItem st K) now k = counts_valid cv st now k"
  "k \<noteq> K \<Longrightarrow> counts_expired cv (removeItem st K) now k = counts_expired cv st now k"
  by (simp_all add: counts_valid_def counts_expired_def getItem_removeItem)

lemma getStats_removeItem:
  "LocalCache_getStats cv (removeItem st K) now =
     \<lparr>total = length (filter (\<lambda>k. startsWith k PREFIX) (filter (\<lambda>k. k \<noteq> K) (map fst (items st)))),
      valid = length (filter (counts_valid cv st now) (filter (\<lambda>k. k \<noteq> K) (map fst (items st)))),
      expired = length (filter (counts_expired cv st now) (filter (\<lambda>k. k \<noteq> K) (map fst (items st))))\<rparr>"
proof -
  have v: "filter (counts_valid cv (removeItem st K) now) (filter (\<lambda>k. k \<noteq> K) (map fst (items st)))
         = filter (counts_valid cv st now) (filter (\<lambda>k. k \<noteq> K) (map fst (items st)))"
    by (rule filter_cong) (auto simp: counts_removeItem)
  have e: "filter (counts_expired cv (removeItem st K) now) (filter (\<lambda>k. k \<noteq> K) (map fst (items st)))
         = filter (counts_expired cv st now) (filter (\<lambda>k. k \<noteq> K) (map fst (items st)))"
    by (rule filter_cong) (auto simp: counts_removeItem)
  show ?thesis
    unfolding getStats_tally keys_removeItem v e ..
qed

section \<open>Claims\<close>

text \<open>
  C2 (amended). For all keys \<open>k\<close>, JSON-serializable values \<open>v\<close> and \<open>ttl > 0\<close>: when the
  storage accepts the write, \<open>set(k, v, ttl)\<close> produces the state \<open>st'\<close> and, with no
  clock advance, \<open>get(k)\<close> on it returns \<open>v\<close> and leaves the storage as it is.
\<close>

theorem get_after_accepted_set:
  assumes "json_serializable v" and "0 < m" and "set_body st now k v (Fin m) = Inr st'"
  shows "LocalCache_set st now k v (Fin m) = st' \<and> LocalCache_get cv st' now k = (v, st')"
proof -
  note stored = set_body_stored [OF assms(1) assms(3)]
  from assms(2) have "0 \<le> ttl_read_back (Fin m)"
    by (simp add: ttl_read_back_nonneg)
  then have "LocalCache_get cv st' now k = (v, st')"
    using get_entry [OF stored, of "of_int now" "json_roundtrip (JNum (ttl_millis (Fin m)))"
        cv "ttl_read_back (Fin m)" v now]
    by (simp add: ToNumber_stored_ttl)
  then show ?thesis by (simp add: LocalCache_set_def assms(3))
qed

theorem get_after_accepted_set_witness:
  "LocalCache_set roomy 0 ''x'' (JObj [(''n'', JNum (Fin 1))]) (Fin 1) =
     roomy\<lparr>items := [(''sm_cache_x'', JsonText (JObj [(''data'', JObj [(''n'', JNum (Fin 1))]),
        (''timestamp'', JNum (Fin 0)), (''ttl'', JNum (Fin 60000))]))]\<rparr>
   \<and> fst (LocalCache_get coerce_NaN (LocalCache_set roomy 0 ''x'' (JObj [(''n'', JNum (Fin 1))]) (Fin 1)) 0 ''x'')
      = JObj [(''n'', JNum (Fin 1))]"
proof -
  let ?v = "JObj [(''n'', JNum (Fin 1))]"
  let ?st' = "roomy\<lparr>items := [(''sm_cache_x'', JsonText (JObj [(''data'', ?v),
        (''timestamp'', JNum (Fin 0)), (''ttl'', JNum (Fin 60000))]))]\<rparr>"
  have a: "json_serializable ?v" by simp
  have b: "(0::rat) < 1" by simp
  have c: "set_body roomy 0 ''x'' ?v (Fin 1) = Inr ?st'"
    by (simp add: eval_defs roomy_def)
  show ?thesis using get_after_accepted_set [OF a b c, of coerce_NaN] by simp
qed

theorem set_refused_then_get_absent:
  "json_serializable (JObj [(''n'', JNum (Fin 1))]) \<and> (0::rat) < 1 \<and>
   fst (LocalCache_get coerce_NaN (LocalCache_set full 0 ''x'' (JObj [(''n'', JNum (Fin 1))]) (Fin 1)) 0 ''x'')
     \<noteq> JObj [(''n'', JNum (Fin 1))]"
  by (simp add: LocalCache_set_def set_body_def setItem_def full_def LocalCache_get_def
        get_body_def getItem_def)

text \<open>
  C3. An entry stored at time \<open>storedAt\<close> with time-to-live \<open>ttl\<close> is valid exactly when
  \<open>now - storedAt \<le> ttl\<close>: that is the test \<open>getStats\<close> applies, and \<open>get(k)\<close> returns the
  stored data and leaves the storage alone inside the window; past it, \<open>get(k)\<close> returns
  absent and removes the entry from the storage. The instance below is the scenario
  \<open>set("x", {n:1}, 1)\<close> at \<open>t = 0\<close>, read at 30 s and at 61 s.
\<close>

theorem get_valid_iff_within_ttl:
  assumes "getItem st (PREFIX @ k) = Some (JsonText item)"
    and "get_prop item ''timestamp'' = Inr (JNum (Fin storedAt))"
    and "get_prop item ''ttl'' = Inr (JNum (Fin ttl))"
    and "get_prop item ''data'' = Inr d"
  shows "still_valid cv now (JsonText item) = Inr (of_int now - storedAt \<le> ttl)
       \<and> LocalCache_get cv st now k =
           (if of_int now - storedAt \<le> ttl then (d, st) else (JNull, removeItem st (PREFIX @ k)))
       \<and> getItem (removeItem st (PREFIX @ k)) (PREFIX @ k) = None"
  using assms get_entry [OF assms(1,2,3) _ assms(4), of cv ttl now]
  by (simp add: still_valid_def seq_def getItem_removeItem)

theorem get_valid_iff_within_ttl_witness:
  "LocalCache_get coerce_NaN (LocalCache_set roomy 0 ''x'' (JObj [(''n'', JNum (Fin 1))]) (Fin 1)) 30000 ''x''
     = (JObj [(''n'', JNum (Fin 1))], LocalCache_set roomy 0 ''x'' (JObj [(''n'', JNum (Fin 1))]) (Fin 1))
   \<and> LocalCache_get coerce_NaN (LocalCache_set roomy 0 ''x'' (JObj [(''n'', JNum (Fin 1))]) (Fin 1)) 61000 ''x''
     = (JNull, roomy)"
proof -
  let ?d = "JObj [(''n'', JNum (Fin 1))]"
  let ?item = "JObj [(''data'', ?d), (''timestamp'', JNum (Fin 0)), (''ttl'', JNum (Fin 60000))]"
  let ?st = "LocalCache_set roomy 0 ''x'' ?d (Fin 1)"
  have st: "?st = roomy\<lparr>items := [(''sm_cache_x'', JsonText ?item)]\<rparr>"
    by (simp add: eval_defs roomy_def)
  have a: "getItem ?st (PREFIX @ ''x'') = Some (JsonText ?item)"
    unfolding st by (simp add: getItem_def PREFIX_def)
  have b: "get_prop ?item ''timestamp'' = Inr (JNum (Fin 0))" by simp
  have c: "get_prop ?item ''ttl'' = Inr (JNum (Fin 60000))" by simp
  have e: "get_prop ?item ''data'' = Inr ?d" by simp
  have r: "removeItem ?st (PREFIX @ ''x'') = roomy"
    unfolding st by (simp add: removeItem_def PREFIX_def roomy_def)
  show ?thesis
    using get_valid_iff_within_ttl [OF a b c e, of coerce_NaN 30000]
      get_valid_iff_within_ttl [OF a b c e, of coerce_NaN 61000] r
    by simp
qed

text \<open>
  C1. A key that holds a valid cached value should be answered from the cache without
  invoking the producer. The wrapper tests the cached value for truthiness, so a valid
  cached \<open>0\<close> (which \<open>get\<close> returns and \<open>isValid\<close> reports as valid) is taken for a miss:
  with a producer returning \<open>0\<close> and then \<open>B\<close>, the second non-forced call inside the TTL
  window invokes the producer again, returns \<open>B\<close> and overwrites the entry.
\<close>

theorem fetchWithCache_refetches_falsy_value:
  "fetchWithCache coerce_NaN roomy 0 0 scripted ([Inr (JNum (Fin 0)), Inr (JStr ''B'')], 0) ''k'' None None
     = (Inr (JNum (Fin 0)), LocalCache_set roomy 0 ''k'' (JNum (Fin 0)) (Fin 60), ([Inr (JStr ''B'')], 1))
   \<and> LocalCache_get coerce_NaN (LocalCache_set roomy 0 ''k'' (JNum (Fin 0)) (Fin 60)) 1000 ''k''
     = (JNum (Fin 0), LocalCache_set roomy 0 ''k'' (JNum (Fin 0)) (Fin 60))
   \<and> LocalCache_isValid coerce_NaN (LocalCache_set roomy 0 ''k'' (JNum (Fin 0)) (Fin 60)) 1000 ''k''
     = (True, LocalCache_set roomy 0 ''k'' (JNum (Fin 0)) (Fin 60))
   \<and> fetchWithCache coerce_NaN (LocalCache_set roomy 0 ''k'' (JNum (Fin 0)) (Fin 60)) 1000 1000
        scripted ([Inr (JStr ''B'')], 1) ''k'' None None
     = (Inr (JStr ''B''), LocalCache_set roomy 1000 ''k'' (JStr ''B'') (Fin 60), ([], 2))"
  by (simp add: eval_defs LocalCache_isValid_def roomy_def scripted_def coerce_NaN_def)

text \<open>
  C10. A non-forced \<open>fetchWithCache\<close> call that is answered from the cache returns the
  cached value, does not run the producer, and returns the storage it was given: the
  entry is not rewritten and its timestamp is not refreshed.
\<close>

theorem cache_hit_leaves_storage_unchanged:
  assumes "forceRefresh = None \<or> forceRefresh = Some False"
    and "ToBoolean (fst (LocalCache_get cv st t_get k))"
  shows "fetchWithCache cv st t_get t_set fetchFn p k ttl forceRefresh =
           (Inr (fst (LocalCache_get cv st t_get k)), st, p)"
proof -
  from assms(2) have "fst (LocalCache_get cv st t_get k) \<noteq> JNull" by auto
  then have "snd (LocalCache_get cv st t_get k) = st" by (rule get_value_unchanged)
  with assms show ?thesis
    by (auto simp: fetchWithCache_def split: prod.split)
qed

theorem cache_hit_leaves_storage_unchanged_witness:
  "fetchWithCache coerce_NaN (LocalCache_set roomy 0 ''k'' (JStr ''A'') (Fin 60)) 1000 1000
     scripted ([Inr (JStr ''B'')], 1) ''k'' None None
   = (Inr (JStr ''A''), LocalCache_set roomy 0 ''k'' (JStr ''A'') (Fin 60), ([Inr (JStr ''B'')], 1))"
proof -
  let ?st = "LocalCache_set roomy 0 ''k'' (JStr ''A'') (Fin 60)"
  have g: "LocalCache_get coerce_NaN ?st 1000 ''k'' = (JStr ''A'', ?st)"
    by (simp add: eval_defs roomy_def coerce_NaN_def)
  have a: "(None :: bool option) = None \<or> (None :: bool option) = Some False" by simp
  have b: "ToBoolean (fst (LocalCache_get coerce_NaN ?st 1000 ''k''))" by (simp add: g)
  show ?thesis
    using cache_hit_leaves_storage_unchanged [OF a b, of 1000 scripted "([Inr (JStr ''B'')], 1)" None]
    by (simp add: g)
qed

text \<open>
  C4 (amended). If the producer is invoked and throws, the error reaches the caller
  unchanged and nothing is written: with \<open>forceRefresh\<close> the storage is exactly what it
  was; without it the storage is what the initial lookup \<open>get(k)\<close> left, which is the
  storage as it was or, when the entry under \<open>k\<close> had expired, the storage with that
  entry removed.
\<close>

theorem producer_failure_propagates:
  assumes "fetchFn p = (Inl e, p')"
    and "forceRefresh = Some True \<or> \<not> ToBoolean (fst (LocalCache_get cv st t_get k))"
  shows "fetchWithCache cv st t_get t_set fetchFn p k ttl forceRefresh =
           (Inl e, (if forceRefresh = Some True then st else snd (LocalCache_get cv st t_get k)), p')
       \<and> (snd (LocalCache_get cv st t_get k) = st \<or>
          snd (LocalCache_get cv st t_get k) = removeItem st (PREFIX @ k) \<and>
          (\<exists>stored. getItem st (PREFIX @ k) = Some stored \<and> still_valid cv t_get stored = Inr False))"
proof -
  have "fetchWithCache cv st t_get t_set fetchFn p k ttl forceRefresh =
           (Inl e, (if forceRefresh = Some True then st else snd (LocalCache_get cv st t_get k)), p')"
    using assms
    by (cases forceRefresh) (auto simp: fetchWithCache_def fetch_and_store_def split: prod.split)
  then show ?thesis
    using get_removed_was_expired [of cv st t_get k] by auto
qed

theorem producer_failure_propagates_witness:
  "fetchWithCache coerce_NaN (LocalCache_set roomy 0 ''k'' (JStr ''A'') (Fin 1)) 61000 61000
     scripted ([Inl ''boom''], 0) ''k'' (Some (Fin 1)) None
   = (Inl ''boom'', roomy, ([], 1))
   \<and> fetchWithCache coerce_NaN (LocalCache_set roomy 0 ''k'' (JStr ''A'') (Fin 1)) 1000 1000
     scripted ([Inl ''boom''], 0) ''k'' (Some (Fin 1)) (Some True)
   = (Inl ''boom'', LocalCache_set roomy 0 ''k'' (JStr ''A'') (Fin 1), ([], 1))"
proof -
  let ?st = "LocalCache_set roomy 0 ''k'' (JStr ''A'') (Fin 1)"
  have f: "scripted ([Inl ''boom''], 0) = (Inl ''boom'', ([], 1))"
    by (simp add: scripted_def)
  have g: "LocalCache_get coerce_NaN ?st 61000 ''k'' = (JNull, roomy)"
    by (simp add: eval_defs roomy_def coerce_NaN_def)
  have a: "(None :: bool option) = Some True \<or> \<not> ToBoolean (fst (LocalCache_get coerce_NaN ?st 61000 ''k''))"
    by (simp add: g)
  have b: "Some True = Some True \<or> \<not> ToBoolean (fst (LocalCache_get coerce_NaN ?st 1000 ''k''))"
    by simp
  show ?thesis
    using producer_failure_propagates
        [where fetchFn = scripted and p = "([Inl ''boom''], 0)" and forceRefresh = None
           and cv = coerce_NaN and st = ?st and t_get = 61000 and k = "''k''"
           and t_set = 61000 and ttl = "Some (Fin 1)", OF f a]
      producer_failure_propagates
        [where fetchFn = scripted and p = "([Inl ''boom''], 0)" and forceRefresh = "Some True"
           and cv = coerce_NaN and st = ?st and t_get = 1000 and k = "''k''"
           and t_set = 1000 and ttl = "Some (Fin 1)", OF f b]
    by (simp add: g)
qed

text \<open>
  The claim as stated fails when the key holds an expired entry: the producer throws,
  and the entry stored under the key before the call is gone after it.
\<close>

theorem producer_failure_removes_expired_entry:
  "scripted ([Inl ''boom''], 0) = (Inl ''boom'', ([], 1))
   \<and> getItem (LocalCache_set roomy 0 ''k'' (JStr ''A'') (Fin 1)) (PREFIX @ ''k'')
       = Some (JsonText (JObj [(''data'', JStr ''A''), (''timestamp'', JNum (Fin 0)), (''ttl'', JNum (Fin 60000))]))
   \<and> getItem (fst (snd (fetchWithCache coerce_NaN (LocalCache_set roomy 0 ''k'' (JStr ''A'') (Fin 1)) 61000 61000
        scripted ([Inl ''boom''], 0) ''k'' (Some (Fin 1)) None))) (PREFIX @ ''k'')
       = None"
  by (simp add: eval_defs roomy_def scripted_def coerce_NaN_def)

text \<open>
  C5 (amended). With \<open>forceRefresh = true\<close> the wrapper always invokes the producer and,
  when the producer returns \<open>v\<close>, hands \<open>v\<close> to \<open>set\<close> with the given TTL and returns it,
  whatever entry the key held. When the storage accepts that write, \<open>v\<close> is stored under
  the key with the time of the write and the ttl \<open>set\<close> computes, the double product
  \<open>ttlMinutes * 60 * 1000\<close>; and a later non-forced call returns a JSON-serializable,
  truthy \<open>v\<close> from the cache, without running the producer, as long as the age of the
  entry is at most the ttl read back from it (that product, or 0 when the product is not
  finite).
\<close>

theorem force_refresh_stores_and_serves:
  assumes "fetchFn p = (Inr v, p')"
    and "(case ttlArg of None \<Rightarrow> Fin 60 | Some x \<Rightarrow> x) = ttlMinutes"
  shows "fetchWithCache cv st t_get t_set fetchFn p k ttlArg (Some True) =
           (Inr v, LocalCache_set st t_set k v ttlMinutes, p')
       \<and> (set_body st t_set k v ttlMinutes = Inr st' \<and> json_serializable v \<and> ToBoolean v \<and>
            of_int t_next - of_int t_set \<le> ttl_read_back ttlMinutes \<and>
            (forceNext = None \<or> forceNext = Some False) \<longrightarrow>
          LocalCache_set st t_set k v ttlMinutes = st' \<and>
          getItem st' (PREFIX @ k) =
            Some (JsonText (JObj [(''data'', v), (''timestamp'', JNum (Fin (of_int t_set))),
                                  (''ttl'', json_roundtrip (JNum (ttl_millis ttlMinutes)))])) \<and>
          fetchWithCache cv st' t_next t_after fetchNext q k ttlNext forceNext = (Inr v, st', q))"
proof -
  have first: "fetchWithCache cv st t_get t_set fetchFn p k ttlArg (Some True) =
           (Inr v, LocalCache_set st t_set k v ttlMinutes, p')"
    using assms by (simp add: fetchWithCache_def fetch_and_store_def)
  have second: "LocalCache_set st t_set k v ttlMinutes = st' \<and>
          getItem st' (PREFIX @ k) =
            Some (JsonText (JObj [(''data'', v), (''timestamp'', JNum (Fin (of_int t_set))),
                                  (''ttl'', json_roundtrip (JNum (ttl_millis ttlMinutes)))])) \<and>
          fetchWithCache cv st' t_next t_after fetchNext q k ttlNext forceNext = (Inr v, st', q)"
    if acc: "set_body st t_set k v ttlMinutes = Inr st'" and ser: "json_serializable v"
      and tr: "ToBoolean v" and win: "of_int t_next - of_int t_set \<le> ttl_read_back ttlMinutes"
      and nf: "forceNext = None \<or> forceNext = Some False"
  proof -
    note stored = set_body_stored [OF ser acc]
    have g: "LocalCache_get cv st' t_next k = (v, st')"
      using get_entry [OF stored, of "of_int t_set" "json_roundtrip (JNum (ttl_millis ttlMinutes))"
          cv "ttl_read_back ttlMinutes" v t_next] win
      by (simp add: ToNumber_stored_ttl)
    have "fetchWithCache cv st' t_next t_after fetchNext q k ttlNext forceNext = (Inr v, st', q)"
      using nf tr by (auto simp: fetchWithCache_def g)
    with stored acc show ?thesis by (simp add: LocalCache_set_def)
  qed
  from first second show ?thesis by blast
qed

theorem force_refresh_stores_and_serves_witness:
  "fetchWithCache coerce_NaN (LocalCache_set roomy 0 ''k'' (JStr ''A'') (Fin 60)) 1000 1000
     scripted ([Inr (JStr ''B'')], 1) ''k'' None (Some True)
   = (Inr (JStr ''B''), LocalCache_set roomy 1000 ''k'' (JStr ''B'') (Fin 60), ([], 2))
   \<and> fetchWithCache coerce_NaN (LocalCache_set roomy 1000 ''k'' (JStr ''B'') (Fin 60)) 2000 2000
     scripted ([], 2) ''k'' None None
   = (Inr (JStr ''B''), LocalCache_set roomy 1000 ''k'' (JStr ''B'') (Fin 60), ([], 2))"
proof -
  let ?st = "LocalCache_set roomy 0 ''k'' (JStr ''A'') (Fin 60)"
  let ?st' = "LocalCache_set roomy 1000 ''k'' (JStr ''B'') (Fin 60)"
  have f: "scripted ([Inr (JStr ''B'')], 1) = (Inr (JStr ''B''), ([], 2))"
    by (simp add: scripted_def)
  have t: "(case None of None \<Rightarrow> Fin 60 | Some x \<Rightarrow> x) = Fin 60" by simp
  have acc: "set_body ?st 1000 ''k'' (JStr ''B'') (Fin 60) = Inr ?st'"
    by (simp add: eval_defs roomy_def)
  have w: "ttl_read_back (Fin 60) = 3600000"
    by (simp add: ttl_read_back_def ttl_millis_def round_eval)
  have rest: "json_serializable (JStr ''B'') \<and> ToBoolean (JStr ''B'') \<and>
      of_int 2000 - of_int 1000 \<le> ttl_read_back (Fin 60) \<and>
      ((None :: bool option) = None \<or> (None :: bool option) = Some False)"
    by (simp add: w)
  show ?thesis
    using force_refresh_stores_and_serves
        [where fetchFn = scripted and p = "([Inr (JStr ''B'')], 1)" and ttlArg = None
           and ttlMinutes = "Fin 60" and cv = coerce_NaN and st = ?st and t_get = 1000
           and t_set = 1000 and k = "''k''" and st' = ?st' and t_next = 2000 and t_after = 2000
           and forceNext = None and fetchNext = scripted and q = "([], 2)" and ttlNext = None,
         OF f t]
      acc rest
    by simp
qed

text \<open>
  The claim as stated fails on a storage that refuses the write: the forced call
  returns \<open>B\<close> but stores nothing, and the next non-forced call invokes the producer
  again and returns \<open>C\<close>. It also fails by rounding: with \<open>ttlMinutes\<close> the double
  nearest 4.29, the stored ttl is the double just below 257400, so a call at age 257400,
  which is within \<open>ttlMinutes * 60 * 1000\<close> taken exactly, finds the entry expired and
  invokes the producer again.
\<close>

theorem force_refresh_on_refusing_storage:
  "fetchWithCache coerce_NaN full 0 0 scripted ([Inr (JStr ''B''), Inr (JStr ''C'')], 0) ''k'' None (Some True)
     = (Inr (JStr ''B''), full, ([Inr (JStr ''C'')], 1))
   \<and> getItem full (PREFIX @ ''k'') = None
   \<and> fetchWithCache coerce_NaN full 1 1 scripted ([Inr (JStr ''C'')], 1) ''k'' None None
     = (Inr (JStr ''C''), full, ([], 2))
   \<and> fetchWithCache coerce_NaN roomy 0 0 scripted ([Inr (JStr ''B''), Inr (JStr ''C'')], 0) ''k''
        (Some (Fin (4830110600354857 / 1125899906842624))) (Some True)
     = (Inr (JStr ''B''),
        LocalCache_set roomy 0 ''k'' (JStr ''B'') (Fin (4830110600354857 / 1125899906842624)),
        ([Inr (JStr ''C'')], 1))
   \<and> ttl_millis (Fin (4830110600354857 / 1125899906842624)) = Fin (8844196655923199 / 34359738368)
   \<and> (257400 :: rat) \<le> 4830110600354857 / 1125899906842624 * 60 * 1000
   \<and> fst (fetchWithCache coerce_NaN
        (LocalCache_set roomy 0 ''k'' (JStr ''B'') (Fin (4830110600354857 / 1125899906842624)))
        257400 257400 scripted ([Inr (JStr ''C'')], 1) ''k''
        (Some (Fin (4830110600354857 / 1125899906842624))) None)
     = Inr (JStr ''C'')"
  by (simp add: eval_defs full_def roomy_def scripted_def coerce_NaN_def)

text \<open>
  C7. \<open>clearAll()\<close> removes exactly the entries whose keys carry the prefix: the entries
  left are those without the prefix, unchanged and in their order; no key with the
  prefix has an entry afterwards; every key without the prefix reads as before; and the
  number logged is the number of entries removed.
\<close>

theorem clearAll_removes_exactly_prefixed:
  assumes "LocalCache_clearAll st = (st', n)"
  shows "items st' = filter (\<lambda>kv. \<not> startsWith (fst kv) PREFIX) (items st)
       \<and> accepts st' = accepts st
       \<and> (\<forall>k. startsWith k PREFIX \<longrightarrow> getItem st' k = None)
       \<and> (\<forall>k. \<not> startsWith k PREFIX \<longrightarrow> getItem st' k = getItem st k)
       \<and> n = length (filter (\<lambda>kv. startsWith (fst kv) PREFIX) (items st))
       \<and> n = length (items st) - length (items st')"
proof -
  from assms have st': "st' = st\<lparr>items := filter (\<lambda>kv. \<not> startsWith (fst kv) PREFIX) (items st)\<rparr>"
    and n: "n = length (filter (\<lambda>kv. startsWith (fst kv) PREFIX) (items st))"
    by (simp_all add: clearAll_eq)
  have "length (filter (\<lambda>kv. startsWith (fst kv) PREFIX) (items st))
      + length (filter (\<lambda>kv. \<not> startsWith (fst kv) PREFIX) (items st)) = length (items st)"
    by (rule sum_length_filter_compl)
  then have "n = length (items st) - length (items st')"
    by (simp add: st' n)
  moreover have "getItem st' k = (if startsWith k PREFIX then None else getItem st k)" for k
    by (simp add: st' getItem_def map_of_filter_key [of "\<lambda>k. \<not> startsWith k PREFIX"])
  ultimately show ?thesis
    by (simp add: st' n)
qed

theorem clearAll_removes_exactly_prefixed_witness:
  "LocalCache_clearAll (roomy\<lparr>items := [(''sm_cache_a'', NotJson), (''theme'', JsonText (JStr ''dark'')),
       (''sm_cache_b'', EmptyString)]\<rparr>)
   = (roomy\<lparr>items := [(''theme'', JsonText (JStr ''dark''))]\<rparr>, 2)"
proof -
  let ?st = "roomy\<lparr>items := [(''sm_cache_a'', NotJson), (''theme'', JsonText (JStr ''dark'')),
       (''sm_cache_b'', EmptyString)]\<rparr>"
  obtain st' n where r: "LocalCache_clearAll ?st = (st', n)"
    by (cases "LocalCache_clearAll ?st")
  have "st' = roomy\<lparr>items := [(''theme'', JsonText (JStr ''dark''))]\<rparr> \<and> n = 2"
    using clearAll_removes_exactly_prefixed [OF r]
    by (simp add: startsWith_def PREFIX_def roomy_def)
  with r show ?thesis by simp
qed

text \<open>
  C8. The key computed by \<open>fetchYieldCurve\<close> embeds the date part of the current ISO
  timestamp, so two calls whose dates differ compute different keys, whatever the times
  of day and however close together the calls are; a value stored under the first
  day's key at any time, with any TTL, is not seen by a lookup under the second day's
  key.
\<close>

theorem dailyKey_differs_across_days:
  assumes "CHR ''T'' \<notin> set dayA" and "CHR ''T'' \<notin> set dayB" and "dayA \<noteq> dayB"
  shows "dailyKey (dayA @ ''T'' @ timeA) \<noteq> dailyKey (dayB @ ''T'' @ timeB)
       \<and> fst (LocalCache_get cv (LocalCache_set st tA (dailyKey (dayA @ ''T'' @ timeA)) v ttl)
               tB (dailyKey (dayB @ ''T'' @ timeB)))
         = fst (LocalCache_get cv st tB (dailyKey (dayB @ ''T'' @ timeB)))"
proof -
  have ne: "dailyKey (dayA @ ''T'' @ timeA) \<noteq> dailyKey (dayB @ ''T'' @ timeB)"
    using assms by (simp add: dailyKey_def today_of_iso)
  then have "PREFIX @ dailyKey (dayB @ ''T'' @ timeB) \<noteq> PREFIX @ dailyKey (dayA @ ''T'' @ timeA)"
    by simp
  then have "getItem (LocalCache_set st tA (dailyKey (dayA @ ''T'' @ timeA)) v ttl)
               (PREFIX @ dailyKey (dayB @ ''T'' @ timeB))
             = getItem st (PREFIX @ dailyKey (dayB @ ''T'' @ timeB))"
    by (rule getItem_set_other)
  then have "fst (LocalCache_get cv (LocalCache_set st tA (dailyKey (dayA @ ''T'' @ timeA)) v ttl)
               tB (dailyKey (dayB @ ''T'' @ timeB)))
         = fst (LocalCache_get cv st tB (dailyKey (dayB @ ''T'' @ timeB)))"
    by (rule get_depends_on_item)
  with ne show ?thesis by (rule conjI)
qed

theorem dailyKey_differs_across_days_witness:
  "dailyKey ''2024-01-01T23:59:59.999Z'' = ''treasury_yields_daily_2024-01-01''
   \<and> dailyKey ''2024-01-02T00:00:00.000Z'' = ''treasury_yields_daily_2024-01-02''
   \<and> dailyKey ''2024-01-01T23:59:59.999Z'' \<noteq> dailyKey ''2024-01-02T00:00:00.000Z''
   \<and> fst (LocalCache_get coerce_NaN
        (LocalCache_set roomy 1704153599999 (dailyKey ''2024-01-01T23:59:59.999Z'') (JStr ''curve'') (Fin 1))
        1704153600000 (dailyKey ''2024-01-02T00:00:00.000Z'')) = JNull"
proof -
  have a: "CHR ''T'' \<notin> set ''2024-01-01''" and b: "CHR ''T'' \<notin> set ''2024-01-02''"
    and c: "''2024-01-01'' \<noteq> ''2024-01-02''"
    by simp_all
  have g: "fst (LocalCache_get coerce_NaN roomy 1704153600000 (dailyKey ''2024-01-02T00:00:00.000Z'')) = JNull"
    by (simp add: LocalCache_get_def get_body_def getItem_def roomy_def)
  show ?thesis
    using dailyKey_differs_across_days [OF a b c, of "''23:59:59.999Z''" "''00:00:00.000Z''"
        coerce_NaN roomy 1704153599999 "JStr ''curve''" "Fin 1" 1704153600000] g
    by (simp add: dailyKey_def today_of_def TREASURY_YIELDS_key_def)
qed

text \<open>
  C9 (amended). For every storage state, \<open>getStats()\<close> returns \<open>total\<close> equal to the number
  of keys with the prefix, \<open>valid\<close> equal to the number of those whose stored string is
  non-empty, parses and passes \<open>now - timestamp \<le> ttl\<close> at the moment of the call, and
  \<open>expired\<close> equal to the number of those whose non-empty stored string does not. A key
  whose stored string is empty is counted in \<open>total\<close> only, so \<open>total\<close> is \<open>valid + expired\<close>
  plus the number of such keys, and \<open>total = valid + expired\<close> when there is none.
\<close>

theorem getStats_counts:
  "total (LocalCache_getStats cv st now) =
     length (filter (\<lambda>k. startsWith k PREFIX) (map fst (items st)))
   \<and> valid (LocalCache_getStats cv st now) =
     length (filter (counts_valid cv st now) (map fst (items st)))
   \<and> expired (LocalCache_getStats cv st now) =
     length (filter (counts_expired cv st now) (map fst (items st)))
   \<and> total (LocalCache_getStats cv st now) =
     valid (LocalCache_getStats cv st now) + expired (LocalCache_getStats cv st now)
       + length (filter (counts_neither st) (map fst (items st)))
   \<and> ((\<forall>kv \<in> set (items st). startsWith (fst kv) PREFIX \<longrightarrow> snd kv \<noteq> EmptyString) \<longrightarrow>
        total (LocalCache_getStats cv st now) =
          valid (LocalCache_getStats cv st now) + expired (LocalCache_getStats cv st now))"
proof -
  have none: "filter (counts_neither st) (map fst (items st)) = []"
    if ne: "\<forall>kv \<in> set (items st). startsWith (fst kv) PREFIX \<longrightarrow> snd kv \<noteq> EmptyString"
  proof -
    have "\<not> counts_neither st k" if k: "k \<in> set (map fst (items st))" for k
    proof (cases "getItem st k")
      case None
      with k show ?thesis by (simp add: getItem_def map_of_eq_None_iff)
    next
      case (Some s)
      then have "(k, s) \<in> set (items st)" by (simp add: getItem_def map_of_SomeD)
      with ne have "startsWith k PREFIX \<longrightarrow> s \<noteq> EmptyString" by fastforce
      with Some show ?thesis by (simp add: counts_neither_def)
    qed
    then show ?thesis by (simp add: filter_empty_conv)
  qed
  have sel: "total (LocalCache_getStats cv st now) =
        length (filter (\<lambda>k. startsWith k PREFIX) (map fst (items st)))"
    "valid (LocalCache_getStats cv st now) =
        length (filter (counts_valid cv st now) (map fst (items st)))"
    "expired (LocalCache_getStats cv st now) =
        length (filter (counts_expired cv st now) (map fst (items st)))"
    by (simp_all add: getStats_tally del: filter_map)
  have sum: "total (LocalCache_getStats cv st now) =
     valid (LocalCache_getStats cv st now) + expired (LocalCache_getStats cv st now)
       + length (filter (counts_neither st) (map fst (items st)))"
    unfolding sel by (rule partition3)
  have "total (LocalCache_getStats cv st now) =
          valid (LocalCache_getStats cv st now) + expired (LocalCache_getStats cv st now)"
    if "\<forall>kv \<in> set (items st). startsWith (fst kv) PREFIX \<longrightarrow> snd kv \<noteq> EmptyString"
    using sum none [OF that] by (simp del: filter_map)
  with sel sum show ?thesis by blast
qed

theorem getStats_counts_witness:
  "LocalCache_getStats coerce_NaN
     (roomy\<lparr>items := [(''sm_cache_a'', JsonText (JObj [(''data'', JStr ''A''), (''timestamp'', JNum (Fin 0)),
                          (''ttl'', JNum (Fin 60000))])),
                      (''theme'', JsonText (JStr ''dark'')),
                      (''sm_cache_b'', JsonText (JObj [(''data'', JStr ''B''), (''timestamp'', JNum (Fin 0)),
                          (''ttl'', JNum (Fin 1000))])),
                      (''sm_cache_c'', NotJson)]\<rparr>) 30000
   = \<lparr>total = 3, valid = 1, expired = 2\<rparr>"
proof -
  let ?st = "roomy\<lparr>items := [(''sm_cache_a'', JsonText (JObj [(''data'', JStr ''A''), (''timestamp'', JNum (Fin 0)),
                          (''ttl'', JNum (Fin 60000))])),
                      (''theme'', JsonText (JStr ''dark'')),
                      (''sm_cache_b'', JsonText (JObj [(''data'', JStr ''B''), (''timestamp'', JNum (Fin 0)),
                          (''ttl'', JNum (Fin 1000))])),
                      (''sm_cache_c'', NotJson)]\<rparr>"
  have "total (LocalCache_getStats coerce_NaN ?st 30000) = 3
      \<and> valid (LocalCache_getStats coerce_NaN ?st 30000) = 1
      \<and> expired (LocalCache_getStats coerce_NaN ?st 30000) = 2"
    using getStats_counts [of coerce_NaN ?st 30000]
    by (simp add: startsWith_def PREFIX_def counts_valid_def counts_expired_def counts_neither_def
          getItem_def still_valid_def seq_def roomy_def)
  then show ?thesis by (cases "LocalCache_getStats coerce_NaN ?st 30000") simp
qed

text \<open>
  The claim as stated fails on a storage holding an empty string under a key with the
  prefix: \<open>total\<close> is 1 while \<open>valid\<close> and \<open>expired\<close> are 0.
\<close>

theorem getStats_empty_string_uncounted:
  "LocalCache_getStats coerce_NaN (roomy\<lparr>items := [(''sm_cache_x'', EmptyString)]\<rparr>) 0
     = \<lparr>total = 1, valid = 0, expired = 0\<rparr>"
  by (simp add: getStats_tally startsWith_def PREFIX_def counts_valid_def counts_expired_def
        getItem_def roomy_def)

text \<open>
  C6 (amended). For a record stored under a namespaced key whose content does not parse
  as JSON, or parses to \<open>null\<close>, \<open>get(k)\<close> does not throw, returns absent and leaves the
  storage unchanged, and \<open>getStats()\<close> never counts the entry as valid: compared with
  the storage without it, the entry adds one to \<open>total\<close>, nothing to \<open>valid\<close>, and one to
  \<open>expired\<close>, unless its content is the empty string, which adds to \<open>total\<close> only.
\<close>

theorem unparseable_entry_is_absent:
  assumes "getItem st (PREFIX @ k) = Some stored"
    and "JSON_parse stored = Inl e \<or> stored = JsonText JNull"
    and "distinct (map fst (items st))"
  shows "LocalCache_get cv st now k = (JNull, st)
       \<and> total (LocalCache_getStats cv st now) =
           total (LocalCache_getStats cv (removeItem st (PREFIX @ k)) now) + 1
       \<and> valid (LocalCache_getStats cv st now) =
           valid (LocalCache_getStats cv (removeItem st (PREFIX @ k)) now)
       \<and> expired (LocalCache_getStats cv st now) =
           expired (LocalCache_getStats cv (removeItem st (PREFIX @ k)) now)
             + (if stored = EmptyString then 0 else 1)"
proof -
  let ?K = "PREFIX @ k"
  let ?ks = "map fst (items st)"
  have g: "LocalCache_get cv st now k = (JNull, st)"
    using assms(1,2) by (auto simp: LocalCache_get_def get_body_def seq_def)
  from assms(1) have "(?K, stored) \<in> set (items st)"
    by (simp add: getItem_def map_of_SomeD)
  then have mem: "?K \<in> set ?ks" by force
  have sv: "still_valid cv now stored \<noteq> Inr True"
    using assms(2) by (auto simp: still_valid_def seq_def)
  have nv: "\<not> counts_valid cv st now ?K"
    using assms(1) sv by (simp add: counts_valid_def)
  have ex: "counts_expired cv st now ?K = (stored \<noteq> EmptyString)"
    using assms(1) sv by (simp add: counts_expired_def)
  note rm = length_filter_remove1 [OF assms(3) mem]
  have t: "total (LocalCache_getStats cv st now) = length (filter (\<lambda>k. startsWith k PREFIX) ?ks)"
    and v: "valid (LocalCache_getStats cv st now) = length (filter (counts_valid cv st now) ?ks)"
    and x: "expired (LocalCache_getStats cv st now) = length (filter (counts_expired cv st now) ?ks)"
    by (subst getStats_tally, simp)+
  have t': "total (LocalCache_getStats cv (removeItem st ?K) now) =
              length (filter (\<lambda>k. startsWith k PREFIX) (filter (\<lambda>k. k \<noteq> ?K) ?ks))"
    and v': "valid (LocalCache_getStats cv (removeItem st ?K) now) =
              length (filter (counts_valid cv st now) (filter (\<lambda>k. k \<noteq> ?K) ?ks))"
    and x': "expired (LocalCache_getStats cv (removeItem st ?K) now) =
              length (filter (counts_expired cv st now) (filter (\<lambda>k. k \<noteq> ?K) ?ks))"
    by (subst getStats_removeItem, simp)+
  have "total (LocalCache_getStats cv st now) =
           total (LocalCache_getStats cv (removeItem st ?K) now) + 1"
    unfolding t t' using rm [of "\<lambda>k. startsWith k PREFIX"] by simp
  moreover have "valid (LocalCache_getStats cv st now) =
           valid (LocalCache_getStats cv (removeItem st ?K) now)"
    unfolding v v' using rm [of "counts_valid cv st now"] nv by simp
  moreover have "expired (LocalCache_getStats cv st now) =
           expired (LocalCache_getStats cv (removeItem st ?K) now)
             + (if stored = EmptyString then 0 else 1)"
    unfolding x x' using rm [of "counts_expired cv st now"] ex by simp
  ultimately show ?thesis using g by simp
qed

theorem unparseable_entry_is_absent_witness:
  "LocalCache_get coerce_NaN
     (roomy\<lparr>items := [(''sm_cache_bad'', NotJson),
                      (''sm_cache_ok'', JsonText (JObj [(''data'', JStr ''A''), (''timestamp'', JNum (Fin 0)),
                          (''ttl'', JNum (Fin 60000))]))]\<rparr>) 1000 ''bad''
   = (JNull, roomy\<lparr>items := [(''sm_cache_bad'', NotJson),
                      (''sm_cache_ok'', JsonText (JObj [(''data'', JStr ''A''), (''timestamp'', JNum (Fin 0)),
                          (''ttl'', JNum (Fin 60000))]))]\<rparr>)
   \<and> LocalCache_getStats coerce_NaN
     (roomy\<lparr>items := [(''sm_cache_bad'', NotJson),
                      (''sm_cache_ok'', JsonText (JObj [(''data'', JStr ''A''), (''timestamp'', JNum (Fin 0)),
                          (''ttl'', JNum (Fin 60000))]))]\<rparr>) 1000
   = \<lparr>total = 2, valid = 1, expired = 1\<rparr>"
proof -
  let ?ok = "(''sm_cache_ok'', JsonText (JObj [(''data'', JStr ''A''), (''timestamp'', JNum (Fin 0)),
                          (''ttl'', JNum (Fin 60000))]))"
  let ?st = "roomy\<lparr>items := [(''sm_cache_bad'', NotJson), ?ok]\<rparr>"
  have a: "getItem ?st (PREFIX @ ''bad'') = Some NotJson"
    by (simp add: getItem_def PREFIX_def)
  have b: "JSON_parse NotJson = Inl SyntaxError \<or> NotJson = JsonText JNull"
    by simp
  have c: "distinct (map fst (items ?st))"
    by simp
  have r: "LocalCache_getStats coerce_NaN (removeItem ?st (PREFIX @ ''bad'')) 1000
             = \<lparr>total = 1, valid = 1, expired = 0\<rparr>"
    by (simp add: getStats_tally removeItem_def startsWith_def PREFIX_def counts_valid_def
          counts_expired_def getItem_def still_valid_def seq_def roomy_def)
  have "LocalCache_get coerce_NaN ?st 1000 ''bad'' = (JNull, ?st)
      \<and> total (LocalCache_getStats coerce_NaN ?st 1000) = 2
      \<and> valid (LocalCache_getStats coerce_NaN ?st 1000) = 1
      \<and> expired (LocalCache_getStats coerce_NaN ?st 1000) = 1"
    using unparseable_entry_is_absent [OF a b c, of coerce_NaN 1000] by (simp add: r)
  then show ?thesis by (cases "LocalCache_getStats coerce_NaN ?st 1000") simp
qed

text \<open>
  The claim as stated fails for content that parses but lacks the shape of an entry:
  a record with no timestamp and no ttl is served by \<open>get\<close>, and a record whose
  timestamp and ttl are booleans is counted as valid by \<open>getStats\<close>.
\<close>

theorem ill_shaped_entry_is_served:
  "get_prop (JObj [(''data'', JNum (Fin 5))]) ''timestamp'' = Inr JUndefined
   \<and> LocalCache_get coerce_NaN
        (roomy\<lparr>items := [(''sm_cache_k'', JsonText (JObj [(''data'', JNum (Fin 5))]))]\<rparr>) 100 ''k''
      = (JNum (Fin 5), roomy\<lparr>items := [(''sm_cache_k'', JsonText (JObj [(''data'', JNum (Fin 5))]))]\<rparr>)
   \<and> LocalCache_getStats coerce_NaN
        (roomy\<lparr>items := [(''sm_cache_k'',
            JsonText (JObj [(''timestamp'', JBool True), (''ttl'', JBool True)]))]\<rparr>) 1
      = \<lparr>total = 1, valid = 1, expired = 0\<rparr>"
  by (simp add: eval_defs roomy_def coerce_NaN_def getStats_tally startsWith_def counts_valid_def counts_expired_def
        still_valid_def)

end
